theory Spec2Isabelle
  imports Main
begin

section \<open>Characters and the string primitives the converter calls\<close>

text \<open>
  The converter works on Python \<open>str\<close> values. A string is modelled as a list of
  \<open>char\<close>, each \<open>char\<close> standing for the code point of the same number, so the
  model covers the inputs whose code points are below 256. The character classes below
  are those of Python on that range: \<open>\d\<close> of the \<open>re\<close> module (decimal digits),
  \<open>\w\<close> (alphanumeric or underscore), \<open>str.isalpha\<close> and \<open>str.isspace\<close>.
\<close>

definition cp :: "char \<Rightarrow> nat" where
  "cp c = of_char c"

definition re_digit :: "char \<Rightarrow> bool" where
  "re_digit c = (48 \<le> cp c \<and> cp c \<le> 57)"

definition alpha_char :: "char \<Rightarrow> bool" where
  "alpha_char c =
     ((65 \<le> cp c \<and> cp c \<le> 90) \<or> (97 \<le> cp c \<and> cp c \<le> 122) \<or>
      cp c = 170 \<or> cp c = 181 \<or> cp c = 186 \<or>
      (192 \<le> cp c \<and> cp c \<le> 214) \<or> (216 \<le> cp c \<and> cp c \<le> 246) \<or> 248 \<le> cp c)"

definition re_word :: "char \<Rightarrow> bool" where
  "re_word c =
     (alpha_char c \<or> re_digit c \<or> cp c = 95 \<or>
      cp c = 178 \<or> cp c = 179 \<or> cp c = 185 \<or> (188 \<le> cp c \<and> cp c \<le> 190))"

definition re_op :: "char \<Rightarrow> bool" where
  "re_op c = (c = CHR ''+'' \<or> c = CHR ''-'' \<or> c = CHR ''*'' \<or> c = CHR ''/'')"

definition space_char :: "char \<Rightarrow> bool" where
  "space_char c =
     ((9 \<le> cp c \<and> cp c \<le> 13) \<or> (28 \<le> cp c \<and> cp c \<le> 32) \<or> cp c = 133 \<or> cp c = 160)"

text \<open>\<open>s.strip()\<close>: whitespace removed at both ends.\<close>

definition py_strip :: "string \<Rightarrow> string" where
  "py_strip s = rev (dropWhile space_char (rev (dropWhile space_char s)))"

text \<open>\<open>s.split(sep)\<close> for a separator of one character: never an empty list.\<close>

fun py_split :: "char \<Rightarrow> string \<Rightarrow> string list" where
  "py_split sep [] = [[]]"
| "py_split sep (c # cs) =
     (if c = sep then [] # py_split sep cs
      else (case py_split sep cs of
              [] \<Rightarrow> [[c]]
            | p # ps \<Rightarrow> (c # p) # ps))"

text \<open>
  \<open>re.match(r'^[a-zA-Z_][a-zA-Z0-9_]*$', variable)\<close>. The classes of this pattern are
  written out in ASCII; \<open>$\<close> also matches just before a newline that ends the string.
\<close>

definition ident_start :: "char \<Rightarrow> bool" where
  "ident_start c = ((65 \<le> cp c \<and> cp c \<le> 90) \<or> (97 \<le> cp c \<and> cp c \<le> 122) \<or> cp c = 95)"

definition ident_char :: "char \<Rightarrow> bool" where
  "ident_char c = (ident_start c \<or> re_digit c)"

definition is_identifier :: "string \<Rightarrow> bool" where
  "is_identifier s = (case s of [] \<Rightarrow> False | c # cs \<Rightarrow> ident_start c \<and> list_all ident_char cs)"

definition match_variable :: "string \<Rightarrow> bool" where
  "match_variable v =
     (is_identifier v \<or> (v \<noteq> [] \<and> last v = CHR 0x0A \<and> is_identifier (butlast v)))"

text \<open>
  \<open>re.findall(r'\d+|\w+|[+\-*/]', s)\<close>. At a position the alternatives are tried in the
  order they are written and the first that matches is taken; a run is greedy and nothing
  follows it, so it is the maximal run. \<open>match_token s\<close> is the text matched at the start
  of \<open>s\<close>, empty when no alternative matches; then the scan moves one character on.
\<close>

definition match_token :: "string \<Rightarrow> string" where
  "match_token s =
     (if takeWhile re_digit s \<noteq> [] then takeWhile re_digit s
      else if takeWhile re_word s \<noteq> [] then takeWhile re_word s
      else (case s of [] \<Rightarrow> [] | c # _ \<Rightarrow> if re_op c then [c] else []))"

function findall :: "string \<Rightarrow> string list" where
  "findall s =
     (if s = [] then []
      else if match_token s = [] then findall (tl s)
      else match_token s # findall (drop (length (match_token s)) s))"
  by pat_completeness auto
termination
  by (relation "measure length") (auto simp: neq_Nil_conv)

declare findall.simps [simp del]

text \<open>\<open>str.isalpha()\<close>: not empty and every character alphabetic.\<close>

definition py_isalpha :: "string \<Rightarrow> bool" where
  "py_isalpha s = (s \<noteq> [] \<and> list_all alpha_char s)"

text \<open>
  \<open>int(token)\<close> returns for a string that, with the blanks at both ends dropped, is an
  optional sign and then decimal digits, where a single underscore may stand between two
  digits; otherwise it raises \<open>ValueError\<close>. The whitespace \<open>int\<close> drops is the ASCII
  whitespace and the two blanks above 127. (The interpreter's configurable limit on the
  number of digits is not part of the model.)
\<close>

definition int_space :: "char \<Rightarrow> bool" where
  "int_space c = ((9 \<le> cp c \<and> cp c \<le> 13) \<or> cp c = 32 \<or> cp c = 133 \<or> cp c = 160)"

fun digit_groups :: "string \<Rightarrow> bool" where
  "digit_groups [] = False"
| "digit_groups [c] = re_digit c"
| "digit_groups (c # d # cs) =
     (re_digit c \<and> (if d = CHR ''_'' then digit_groups cs else digit_groups (d # cs)))"

definition drop_sign :: "string \<Rightarrow> string" where
  "drop_sign s =
     (case s of [] \<Rightarrow> [] | c # cs \<Rightarrow> if c = CHR ''+'' \<or> c = CHR ''-'' then cs else s)"

definition int_parses :: "string \<Rightarrow> bool" where
  "int_parses s =
     digit_groups (drop_sign (rev (dropWhile int_space (rev (dropWhile int_space s)))))"

text \<open>\<open>str(n)\<close> for a counter or a position: the decimal digits of a natural number.\<close>

fun str_nat :: "nat \<Rightarrow> string" where
  "str_nat n =
     (if n < 10 then [char_of (48 + n)]
      else str_nat (n div 10) @ [char_of (48 + n mod 10)])"

declare str_nat.simps [simp del]

section \<open>The class RTLConverter\<close>

text \<open>
  The object's two attributes. The counter starts at 1 and is only ever incremented, so it
  is a natural number.
\<close>

record RTLConverter =
  register_counter :: nat
  rtl_instructions :: "string list"

definition reset :: "RTLConverter \<Rightarrow> RTLConverter" where
  "reset self = self\<lparr>register_counter := 1, rtl_instructions := []\<rparr>"

definition parse_expression :: "string \<Rightarrow> string list" where
  "parse_expression expression = findall (filter (\<lambda>c. c \<noteq> CHR '' '') expression)"

definition is_number :: "string \<Rightarrow> bool" where
  "is_number token = int_parses token"

definition is_operator :: "string \<Rightarrow> bool" where
  "is_operator token = (token \<in> set [''+'', ''-'', ''*'', ''/''])"

definition get_next_register :: "RTLConverter \<Rightarrow> string \<times> RTLConverter" where
  "get_next_register self =
     (''R'' @ str_nat (register_counter self),
      self\<lparr>register_counter := register_counter self + 1\<rparr>)"

text \<open>\<open>self.rtl_instructions.append(instr)\<close>\<close>

definition append_instruction :: "RTLConverter \<Rightarrow> string \<Rightarrow> RTLConverter" where
  "append_instruction self instr = self\<lparr>rtl_instructions := rtl_instructions self @ [instr]\<rparr>"

text \<open>
  \<open>current_register\<close> is \<open>None\<close> or a string; an f-string prints \<open>None\<close> as the word,
  and \<open>if current_register:\<close> holds for a string that is not empty.
\<close>

definition fmt :: "string option \<Rightarrow> string" where
  "fmt r = (case r of None \<Rightarrow> ''None'' | Some x \<Rightarrow> x)"

definition truthy :: "string option \<Rightarrow> bool" where
  "truthy r = (case r of None \<Rightarrow> False | Some x \<Rightarrow> x \<noteq> [])"

definition operand_ok :: "string \<Rightarrow> bool" where
  "operand_ok token = (is_number token \<or> py_isalpha token)"

text \<open>
  The \<open>while i < len(tokens)\<close> loop of \<open>convert_to_rtl\<close>, from the index \<open>i\<close>, the
  current register and the object as they stand. A \<open>return [], msg\<close> inside the loop is
  \<open>Inl msg\<close>; leaving the loop is \<open>Inr\<close> of the current register. Either way the object
  is returned as the loop left it.
\<close>

function convert_loop ::
  "string list \<Rightarrow> nat \<Rightarrow> string option \<Rightarrow> RTLConverter \<Rightarrow> (string + string option) \<times> RTLConverter"
where
  "convert_loop tokens i current_register self =
     (if i < length tokens then
        (if i = 0 then
           (if operand_ok (tokens ! i) then
              convert_loop tokens (i + 1) (Some (fst (get_next_register self)))
                (append_instruction (snd (get_next_register self))
                   (fst (get_next_register self) @ '' <- '' @ tokens ! i))
            else (Inl (''Error: Expected number or variable at position '' @ str_nat i), self))
         else if i mod 2 = 1 then
           (if \<not> is_operator (tokens ! i) then
              (Inl (''Error: Expected operator at position '' @ str_nat i), self)
            else if i + 1 \<ge> length tokens then
              (Inl ''Error: Missing operand after operator'', self)
            else if \<not> operand_ok (tokens ! (i + 1)) then
              (Inl (''Error: Expected number or variable at position '' @ str_nat (i + 1)), self)
            else
              convert_loop tokens (i + 1 + 1)
                (Some (fst (get_next_register
                   (append_instruction (snd (get_next_register self))
                      (fst (get_next_register self) @ '' <- '' @ tokens ! (i + 1))))))
                (append_instruction
                   (snd (get_next_register
                      (append_instruction (snd (get_next_register self))
                         (fst (get_next_register self) @ '' <- '' @ tokens ! (i + 1)))))
                   (fst (get_next_register
                      (append_instruction (snd (get_next_register self))
                         (fst (get_next_register self) @ '' <- '' @ tokens ! (i + 1))))
                    @ '' <- '' @ fmt current_register @ '' '' @ tokens ! i @ '' ''
                    @ fst (get_next_register self))))
         else convert_loop tokens (i + 1) current_register self)
      else (Inr current_register, self))"
  by pat_completeness auto
termination
  by (relation "measure (\<lambda>(tokens, i, current_register, self). length tokens - i)") auto

declare convert_loop.simps [simp del]

text \<open>
  \<open>convert_to_rtl\<close>: the returned pair (instructions, error message) and the object
  after the call. No statement inside the \<open>try\<close> raises, so the \<open>except\<close> branch has no
  counterpart.
\<close>

definition convert_to_rtl :: "RTLConverter \<Rightarrow> string \<Rightarrow> (string list \<times> string) \<times> RTLConverter" where
  "convert_to_rtl self0 expression =
     (let self = reset self0 in
      if CHR ''='' \<notin> set expression then
        (([], ''Error: Expression must contain an assignment (=)''), self)
      else
        let parts = py_split (CHR ''='') expression in
        if length parts \<noteq> 2 then (([], ''Error: Invalid assignment format''), self)
        else
          let variable = py_strip (parts ! 0); expr = py_strip (parts ! 1) in
          if \<not> match_variable variable then (([], ''Error: Invalid variable name''), self)
          else
            let tokens = parse_expression expr in
            if length tokens = 0 then (([], ''Error: Empty expression''), self)
            else if length tokens = 1 then
              (if operand_ok (tokens ! 0) then
                 ((rtl_instructions (append_instruction self (variable @ '' <- '' @ tokens ! 0)), ''''),
                  append_instruction self (variable @ '' <- '' @ tokens ! 0))
               else (([], ''Error: Invalid single token''), self))
            else
              (case convert_loop tokens 0 None self of
                 (Inl msg, self1) \<Rightarrow> (([], msg), self1)
               | (Inr current_register, self1) \<Rightarrow>
                   (if truthy current_register then
                      ((rtl_instructions
                          (append_instruction self1 (variable @ '' <- '' @ fmt current_register)), ''''),
                       append_instruction self1 (variable @ '' <- '' @ fmt current_register))
                    else ((rtl_instructions self1, ''''), self1))))"

section \<open>Notions the properties are stated with\<close>

text \<open>The two components of the returned pair, and the object after the call.\<close>

definition instructions_of :: "RTLConverter \<Rightarrow> string \<Rightarrow> string list" where
  "instructions_of self expression = fst (fst (convert_to_rtl self expression))"

definition error_of :: "RTLConverter \<Rightarrow> string \<Rightarrow> string" where
  "error_of self expression = snd (fst (convert_to_rtl self expression))"

definition object_after :: "RTLConverter \<Rightarrow> string \<Rightarrow> RTLConverter" where
  "object_after self expression = snd (convert_to_rtl self expression)"

text \<open>
  The left-hand side and the tokens of the right-hand side, as \<open>convert_to_rtl\<close> computes
  them from an expression it has split at \<open>=\<close>.
\<close>

definition lhs_variable :: "string \<Rightarrow> string" where
  "lhs_variable expression = py_strip (py_split (CHR ''='') expression ! 0)"

definition rhs_tokens :: "string \<Rightarrow> string list" where
  "rhs_tokens expression = parse_expression (py_strip (py_split (CHR ''='') expression ! 1))"

text \<open>The name of register number \<open>k\<close>, as \<open>get_next_register\<close> prints it.\<close>

definition register_name :: "nat \<Rightarrow> string" where
  "register_name k = ''R'' @ str_nat k"

definition is_register_name :: "string \<Rightarrow> bool" where
  "is_register_name w =
     (case w of [] \<Rightarrow> False | c # ds \<Rightarrow> c = CHR ''R'' \<and> ds \<noteq> [] \<and> list_all re_digit ds)"

text \<open>
  An instruction is a line \<open>dest <- src\<close> or \<open>dest <- src1 op src2\<close>, its words separated
  by single blanks: the destination is the first word, the words after the arrow hold the
  sources.
\<close>

definition dest_of :: "string \<Rightarrow> string" where
  "dest_of instr = takeWhile (\<lambda>c. c \<noteq> CHR '' '') instr"

definition sources :: "string \<Rightarrow> string list" where
  "sources instr = drop 2 (py_split (CHR '' '') instr)"

text \<open>
  The instruction that the loop appends at index \<open>m\<close> of the list, for the tokens it scans:
  the first operand goes to register 1; at an odd index the operand after the operator is
  loaded, at the next index the two registers are combined.
\<close>

definition emitted :: "string list \<Rightarrow> nat \<Rightarrow> string" where
  "emitted tokens m =
     (if m = 0 then register_name 1 @ '' <- '' @ tokens ! 0
      else if odd m then register_name (m + 1) @ '' <- '' @ tokens ! (m + 1)
      else register_name (m + 1) @ '' <- '' @ register_name (m - 1) @ '' '' @ tokens ! (m - 1)
             @ '' '' @ register_name m)"




text \<open>
  Where the loop stands when it is at an odd index \<open>k\<close>: \<open>k\<close> registers are allocated and
  \<open>k\<close> instructions written. \<open>loop_error\<close> is the message with which the loop returns
  at an odd index, if it does; \<open>token_ok\<close> is the check the loop applies to the token at an
  index.
\<close>

definition loop_error :: "string list \<Rightarrow> nat \<Rightarrow> string option" where
  "loop_error tokens k =
     (if \<not> is_operator (tokens ! k) then
        Some (''Error: Expected operator at position '' @ str_nat k)
      else if k + 1 \<ge> length tokens then Some ''Error: Missing operand after operator''
      else if \<not> operand_ok (tokens ! (k + 1)) then
        Some (''Error: Expected number or variable at position '' @ str_nat (k + 1))
      else None)"

definition token_ok :: "string list \<Rightarrow> nat \<Rightarrow> bool" where
  "token_ok tokens j = (if odd j then is_operator (tokens ! j) else operand_ok (tokens ! j))"

definition loop_inv :: "string list \<Rightarrow> nat \<Rightarrow> RTLConverter \<Rightarrow> bool" where
  "loop_inv tokens k self =
     (odd k \<and> k \<le> length tokens \<and> register_counter self = k + 1 \<and>
      rtl_instructions self = map (emitted tokens) [0..<k])"

text \<open>The three checks \<open>convert_to_rtl\<close> makes before it looks at the right-hand side.\<close>

definition valid_split :: "string \<Rightarrow> bool" where
  "valid_split expression =
     (CHR ''='' \<in> set expression \<and> length (py_split (CHR ''='') expression) = 2 \<and>
      match_variable (lhs_variable expression))"

text \<open>The object as \<open>__init__\<close> builds it.\<close>

definition RTLConverter_init :: RTLConverter where
  "RTLConverter_init = \<lparr>register_counter = 1, rtl_instructions = []\<rparr>"

text \<open>The number of operands among the tokens of the right-hand side.\<close>

definition operand_count :: "string \<Rightarrow> nat" where
  "operand_count expression = length (filter operand_ok (rhs_tokens expression))"

text \<open>
  The three kinds of token the pattern can match: a run of digits, a run of word
  characters that does not start with a digit, a single operator character.
\<close>

definition token_shape :: "string \<Rightarrow> bool" where
  "token_shape t =
     (t \<noteq> [] \<and>
      (list_all re_digit t \<or> (list_all re_word t \<and> \<not> re_digit (hd t)) \<or>
       (re_op (hd t) \<and> length t = 1)))"

definition kept :: "char \<Rightarrow> bool" where
  "kept c = (re_word c \<or> re_op c)"

section \<open>Evaluation of the model on concrete inputs\<close>

lemmas rtl_eval =
  convert_to_rtl_def reset_def py_split.simps py_strip_def space_char_def cp_def
  match_variable_def is_identifier_def ident_start_def ident_char_def re_digit_def
  parse_expression_def findall.simps match_token_def re_word_def alpha_char_def re_op_def
  convert_loop.simps operand_ok_def is_number_def int_parses_def int_space_def drop_sign_def
  py_isalpha_def is_operator_def get_next_register_def append_instruction_def str_nat.simps
  fmt_def truthy_def char_of_def bit_0

section \<open>Character classes and the token at the start of a string\<close>

lemma cp_char_of: "n < 256 \<Longrightarrow> cp (char_of n) = n"
  by (simp add: cp_def)

lemma digit_word: "re_digit c \<Longrightarrow> re_word c"
  by (simp add: re_word_def)

lemma op_not_word: "re_op c \<Longrightarrow> \<not> re_word c"
  by (auto simp: re_op_def re_word_def alpha_char_def re_digit_def cp_def)

lemma digit_not_alpha: "re_digit c \<Longrightarrow> \<not> alpha_char c"
  by (auto simp: alpha_char_def re_digit_def)

lemma space_not_kept: "space_char c \<Longrightarrow> \<not> re_word c \<and> \<not> re_op c"
  by (auto simp: re_op_def re_word_def alpha_char_def re_digit_def space_char_def cp_def)


lemma blank_class: "\<not> re_word (CHR '' '')" "\<not> re_op (CHR '' '')"
  by (simp_all add: re_op_def re_word_def alpha_char_def re_digit_def cp_def)

lemma ident_char_word: "ident_char c \<Longrightarrow> re_word c"
  by (auto simp: ident_char_def ident_start_def re_word_def alpha_char_def)

lemma alpha_word: "alpha_char c \<Longrightarrow> re_word c"
  by (simp add: re_word_def)

lemma match_token_Nil [simp]: "match_token [] = []"
  by (simp add: match_token_def)

lemma match_token_junk: "\<not> re_word c \<Longrightarrow> \<not> re_op c \<Longrightarrow> match_token (c # cs) = []"
  by (auto simp: match_token_def dest: digit_word)

lemma match_token_empty_iff:
  "match_token s = [] \<longleftrightarrow> (s = [] \<or> (\<not> re_word (hd s) \<and> \<not> re_op (hd s)))"
  by (cases s) (auto simp: match_token_def takeWhile_eq_Nil_iff dest: digit_word op_not_word)

lemma match_token_prefix: "take (length (match_token s)) s = match_token s"
  by (cases s) (auto simp: match_token_def takeWhile_eq_take[symmetric] simp del: takeWhile.simps)

section \<open>The loop of convert_to_rtl\<close>

lemma next_register_simps [simp]:
  "fst (get_next_register self) = register_name (register_counter self)"
  "register_counter (snd (get_next_register self)) = register_counter self + 1"
  "rtl_instructions (snd (get_next_register self)) = rtl_instructions self"
  by (simp_all add: get_next_register_def register_name_def)

lemma append_instruction_simps [simp]:
  "register_counter (append_instruction self x) = register_counter self"
  "rtl_instructions (append_instruction self x) = rtl_instructions self @ [x]"
  by (simp_all add: append_instruction_def)

lemma loop_inv_step:
  assumes "loop_inv tokens i self" "i + 1 < length tokens"
  shows "loop_inv tokens (i + 1 + 1)
           (append_instruction
              (snd (get_next_register
                 (append_instruction (snd (get_next_register self))
                    (fst (get_next_register self) @ '' <- '' @ tokens ! (i + 1)))))
              (fst (get_next_register
                 (append_instruction (snd (get_next_register self))
                    (fst (get_next_register self) @ '' <- '' @ tokens ! (i + 1))))
               @ '' <- '' @ fmt (Some (register_name i)) @ '' '' @ tokens ! i @ '' ''
               @ fst (get_next_register self)))"
  using assms by (auto simp: loop_inv_def emitted_def fmt_def)

lemma convert_loop_odd:
  "loop_inv tokens i self \<Longrightarrow> cur = Some (register_name i) \<Longrightarrow>
   convert_loop tokens i cur self = (r, self') \<Longrightarrow>
   \<exists>k. i \<le> k \<and> loop_inv tokens k self' \<and> (\<forall>j. i \<le> j \<and> j < k \<longrightarrow> token_ok tokens j) \<and>
       (case r of Inr c \<Rightarrow> k = length tokens \<and> c = Some (register_name k)
                | Inl msg \<Rightarrow> k < length tokens \<and> loop_error tokens k = Some msg)"
proof (induction tokens i cur self rule: convert_loop.induct)
  case (1 tokens i cur self)
  from "1.prems"(1) have odd_i: "odd i" and le: "i \<le> length tokens"
    by (simp_all add: loop_inv_def)
  then have i0: "i \<noteq> 0" and im: "i mod 2 = 1"
    by (auto simp: odd_iff_mod_2_eq_one)
  show ?case
  proof (cases "i < length tokens")
    case False
    with le have "i = length tokens" by simp
    moreover from False "1.prems"(3) have "r = Inr cur" "self' = self"
      by (simp_all add: convert_loop.simps)
    ultimately show ?thesis
      using "1.prems"(1,2) by (intro exI[of _ i]) auto
  next
    case True
    show ?thesis
    proof (cases "loop_error tokens i")
      case (Some msg)
      with True i0 im "1.prems"(3) have "r = Inl msg" "self' = self"
        by (auto simp: convert_loop.simps[of tokens i] loop_error_def split: if_splits)
      with Some True "1.prems"(1) show ?thesis
        by (intro exI[of _ i]) auto
    next
      case None
      then have ok: "is_operator (tokens ! i)" "i + 1 < length tokens" "operand_ok (tokens ! (i + 1))"
        by (auto simp: loop_error_def split: if_splits)
      let ?self2 = "append_instruction
              (snd (get_next_register
                 (append_instruction (snd (get_next_register self))
                    (fst (get_next_register self) @ '' <- '' @ tokens ! (i + 1)))))
              (fst (get_next_register
                 (append_instruction (snd (get_next_register self))
                    (fst (get_next_register self) @ '' <- '' @ tokens ! (i + 1))))
               @ '' <- '' @ fmt cur @ '' '' @ tokens ! i @ '' ''
               @ fst (get_next_register self))"
      let ?cur2 = "Some (fst (get_next_register
                   (append_instruction (snd (get_next_register self))
                      (fst (get_next_register self) @ '' <- '' @ tokens ! (i + 1)))))"
      have inv2: "loop_inv tokens (i + 1 + 1) ?self2"
        using loop_inv_step[OF "1.prems"(1) ok(2)] "1.prems"(2) by simp
      have cur2: "?cur2 = Some (register_name (i + 1 + 1))"
        using "1.prems"(1) by (simp add: loop_inv_def)
      have call: "convert_loop tokens (i + 1 + 1) ?cur2 ?self2 = (r, self')"
        using "1.prems"(3) True i0 im ok by (subst (asm) convert_loop.simps) simp
      from "1.IH"(2)[OF True i0 im _ _ _ inv2 cur2 call] ok
      obtain k where k: "i + 1 + 1 \<le> k" "loop_inv tokens k self'"
        "\<forall>j. i + 1 + 1 \<le> j \<and> j < k \<longrightarrow> token_ok tokens j"
        "(case r of Inr c \<Rightarrow> k = length tokens \<and> c = Some (register_name k)
                | Inl msg \<Rightarrow> k < length tokens \<and> loop_error tokens k = Some msg)"
        by auto
      have "token_ok tokens j" if a: "i \<le> j" and b: "j < k" for j
      proof -
        have "j = i \<or> j = i + 1 \<or> i + 1 + 1 \<le> j" using a by linarith
        then show ?thesis
          using ok odd_i k(3) b by (auto simp: token_ok_def)
      qed
      with k show ?thesis by (intro exI[of _ k]) auto
    qed
  qed
qed

lemma register_name_not_Nil [simp]: "register_name k \<noteq> []"
  by (simp add: register_name_def)

lemma reset_simps [simp]:
  "register_counter (reset self) = 1" "rtl_instructions (reset self) = []"
  by (simp_all add: reset_def)

lemma loop_error_not_Nil: "loop_error tokens k = Some msg \<Longrightarrow> msg \<noteq> []"
  by (auto simp: loop_error_def split: if_splits)

lemma convert_loop_start:
  assumes len: "2 \<le> length tokens"
    and fresh: "register_counter self = 1" "rtl_instructions self = []"
    and run: "convert_loop tokens 0 None self = (r, self')"
  shows "(\<not> operand_ok (tokens ! 0) \<and> self' = self \<and>
            r = Inl (''Error: Expected number or variable at position '' @ str_nat 0)) \<or>
         (\<exists>k. loop_inv tokens k self' \<and> (\<forall>j<k. token_ok tokens j) \<and>
            (case r of Inr c \<Rightarrow> k = length tokens \<and> c = Some (register_name k)
                     | Inl msg \<Rightarrow> k < length tokens \<and> loop_error tokens k = Some msg))"
proof (cases "operand_ok (tokens ! 0)")
  case False
  from len have "tokens \<noteq> []" by auto
  with False run have "r = Inl (''Error: Expected number or variable at position '' @ str_nat 0)"
      "self' = self"
    by (simp_all add: convert_loop.simps[of tokens 0])
  with False show ?thesis by simp
next
  case True
  from len have ne: "tokens \<noteq> []" by auto
  let ?self1 = "append_instruction (snd (get_next_register self))
                   (fst (get_next_register self) @ '' <- '' @ tokens ! 0)"
  have inv1: "loop_inv tokens 1 ?self1"
    using len fresh by (simp add: loop_inv_def emitted_def)
  have cur1: "Some (fst (get_next_register self)) = Some (register_name 1)"
    using fresh by simp
  have call: "convert_loop tokens 1 (Some (fst (get_next_register self))) ?self1 = (r, self')"
    using run ne True by (simp add: convert_loop.simps[of tokens 0])
  from convert_loop_odd[OF inv1 cur1 call]
  obtain k where k: "1 \<le> k" "loop_inv tokens k self'" "\<forall>j. 1 \<le> j \<and> j < k \<longrightarrow> token_ok tokens j"
    "(case r of Inr c \<Rightarrow> k = length tokens \<and> c = Some (register_name k)
              | Inl msg \<Rightarrow> k < length tokens \<and> loop_error tokens k = Some msg)"
    by auto
  have "token_ok tokens j" if "j < k" for j
  proof (cases "j = 0")
    case True
    with \<open>operand_ok (tokens ! 0)\<close> show ?thesis by (simp add: token_ok_def)
  next
    case False
    with that k(3) show ?thesis by simp
  qed
  with k show ?thesis by auto
qed

lemma convert_to_rtl_unfold:
  "convert_to_rtl self0 expression =
     (if CHR ''='' \<notin> set expression then
        (([], ''Error: Expression must contain an assignment (=)''), reset self0)
      else if length (py_split (CHR ''='') expression) \<noteq> 2 then
        (([], ''Error: Invalid assignment format''), reset self0)
      else if \<not> match_variable (lhs_variable expression) then
        (([], ''Error: Invalid variable name''), reset self0)
      else if length (rhs_tokens expression) = 0 then
        (([], ''Error: Empty expression''), reset self0)
      else if length (rhs_tokens expression) = 1 then
        (if operand_ok (rhs_tokens expression ! 0) then
           (([lhs_variable expression @ '' <- '' @ rhs_tokens expression ! 0], ''''),
            append_instruction (reset self0)
              (lhs_variable expression @ '' <- '' @ rhs_tokens expression ! 0))
         else (([], ''Error: Invalid single token''), reset self0))
      else
        (case convert_loop (rhs_tokens expression) 0 None (reset self0) of
           (Inl msg, self1) \<Rightarrow> (([], msg), self1)
         | (Inr current_register, self1) \<Rightarrow>
             (if truthy current_register then
                ((rtl_instructions self1 @ [lhs_variable expression @ '' <- '' @ fmt current_register], ''''),
                 append_instruction self1 (lhs_variable expression @ '' <- '' @ fmt current_register))
              else ((rtl_instructions self1, ''''), self1))))"
  by (simp add: convert_to_rtl_def Let_def lhs_variable_def rhs_tokens_def
      split: prod.split sum.split)

lemma convert_to_rtl_cases [case_names invalid single_ok single_bad bad0 stop finished]:
  obtains
    (invalid) msg where "\<not> valid_split e \<or> rhs_tokens e = []" "msg \<noteq> []"
      "convert_to_rtl self e = (([], msg), reset self)"
  | (single_ok) "valid_split e" "length (rhs_tokens e) = 1" "operand_ok (rhs_tokens e ! 0)"
      "convert_to_rtl self e =
         (([lhs_variable e @ '' <- '' @ rhs_tokens e ! 0], ''''),
          append_instruction (reset self) (lhs_variable e @ '' <- '' @ rhs_tokens e ! 0))"
  | (single_bad) "valid_split e" "length (rhs_tokens e) = 1" "\<not> operand_ok (rhs_tokens e ! 0)"
      "convert_to_rtl self e = (([], ''Error: Invalid single token''), reset self)"
  | (bad0) "valid_split e" "2 \<le> length (rhs_tokens e)" "\<not> operand_ok (rhs_tokens e ! 0)"
      "convert_to_rtl self e =
         (([], ''Error: Expected number or variable at position '' @ str_nat 0), reset self)"
  | (stop) k msg self' where "valid_split e" "2 \<le> length (rhs_tokens e)"
      "loop_inv (rhs_tokens e) k self'" "k < length (rhs_tokens e)"
      "\<forall>j<k. token_ok (rhs_tokens e) j" "loop_error (rhs_tokens e) k = Some msg"
      "convert_to_rtl self e = (([], msg), self')"
  | (finished) self' where "valid_split e" "2 \<le> length (rhs_tokens e)"
      "loop_inv (rhs_tokens e) (length (rhs_tokens e)) self'"
      "\<forall>j<length (rhs_tokens e). token_ok (rhs_tokens e) j"
      "convert_to_rtl self e =
         ((map (emitted (rhs_tokens e)) [0..<length (rhs_tokens e)]
             @ [lhs_variable e @ '' <- '' @ register_name (length (rhs_tokens e))], ''''),
          append_instruction self'
            (lhs_variable e @ '' <- '' @ register_name (length (rhs_tokens e))))"
proof (cases "valid_split e \<and> rhs_tokens e \<noteq> []")
  case False
  then have "\<exists>msg. msg \<noteq> [] \<and> convert_to_rtl self e = (([], msg), reset self)"
    by (auto simp: convert_to_rtl_unfold valid_split_def)
  with False invalid show ?thesis by blast
next
  case True
  then have v: "valid_split e" and ne: "rhs_tokens e \<noteq> []" by simp_all
  from v have pre: "CHR ''='' \<in> set e" "length (py_split (CHR ''='') e) = 2"
    "match_variable (lhs_variable e)" by (simp_all add: valid_split_def)
  show ?thesis
  proof (cases "length (rhs_tokens e) = 1")
    case True
    then show ?thesis
      using v pre single_ok single_bad by (cases "operand_ok (rhs_tokens e ! 0)")
        (simp_all add: convert_to_rtl_unfold)
  next
    case False
    from ne have "length (rhs_tokens e) \<noteq> 0" by simp
    with False have len: "2 \<le> length (rhs_tokens e)" by linarith
    obtain r self' where run: "convert_loop (rhs_tokens e) 0 None (reset self) = (r, self')"
      by (cases "convert_loop (rhs_tokens e) 0 None (reset self)") auto
    have conv: "convert_to_rtl self e =
        (case (r, self') of
           (Inl msg, self1) \<Rightarrow> (([], msg), self1)
         | (Inr current_register, self1) \<Rightarrow>
             (if truthy current_register then
                ((rtl_instructions self1 @ [lhs_variable e @ '' <- '' @ fmt current_register], ''''),
                 append_instruction self1 (lhs_variable e @ '' <- '' @ fmt current_register))
              else ((rtl_instructions self1, ''''), self1)))"
      using pre len False ne run by (simp add: convert_to_rtl_unfold)
    from convert_loop_start[OF len _ _ run]
    consider (a) "\<not> operand_ok (rhs_tokens e ! 0)" "self' = reset self"
        "r = Inl (''Error: Expected number or variable at position '' @ str_nat 0)"
      | (b) k where "loop_inv (rhs_tokens e) k self'" "\<forall>j<k. token_ok (rhs_tokens e) j"
        "(case r of Inr c \<Rightarrow> k = length (rhs_tokens e) \<and> c = Some (register_name k)
                  | Inl msg \<Rightarrow> k < length (rhs_tokens e) \<and> loop_error (rhs_tokens e) k = Some msg)"
      by auto
    then show ?thesis
    proof cases
      case a
      with conv v len bad0 show ?thesis by simp
    next
      case b
      show ?thesis
      proof (cases r)
        case (Inl msg)
        with b conv v len stop[of k self' msg] show ?thesis by simp
      next
        case (Inr c)
        with b have "k = length (rhs_tokens e)" "c = Some (register_name k)" by simp_all
        with Inr b conv v len finished[of self'] show ?thesis
          by (simp add: truthy_def fmt_def loop_inv_def)
      qed
    qed
  qed
qed

lemma operator_not_operand: "is_operator t \<Longrightarrow> \<not> operand_ok t"
  by (auto simp: is_operator_def operand_ok_def is_number_def int_parses_def int_space_def
      drop_sign_def py_isalpha_def alpha_char_def re_digit_def cp_def)

lemma count_alternating:
  "\<forall>j<length ts. P (ts ! j) = even j \<Longrightarrow> length (filter P ts) = (length ts + 1) div 2"
proof (induction ts rule: induct_list012)
  case 1
  then show ?case by simp
next
  case (2 x)
  then show ?case by simp
next
  case (3 x y zs)
  from "3.prems" have "P ((x # y # zs) ! 0) = even (0::nat)" by blast
  then have px: "P x" by simp
  from "3.prems" have "P ((x # y # zs) ! 1) = even (1::nat)" by (metis One_nat_def length_Cons less_Suc_eq_0_disj zero_less_Suc)
  then have py: "\<not> P y" by simp
  have "\<forall>j<length zs. P (zs ! j) = even j"
  proof (intro allI impI)
    fix j assume "j < length zs"
    with "3.prems" have "P ((x # y # zs) ! (j + 2)) = even (j + 2)" by (metis add_2_eq_Suc' length_Cons not_less_eq)
    then show "P (zs ! j) = even j" by simp
  qed
  with "3.IH"(1) have "length (filter P zs) = (length zs + 1) div 2" by blast
  with px py show ?case by simp
qed

lemma count_operands:
  assumes "\<forall>j<length ts. token_ok ts j"
  shows "length (filter operand_ok ts) = (length ts + 1) div 2"
proof (rule count_alternating, intro allI impI)
  fix j assume "j < length ts"
  with assms have "token_ok ts j" by simp
  then show "operand_ok (ts ! j) = even j"
    by (auto simp: token_ok_def dest: operator_not_operand split: if_splits)
qed

lemma success_shape:
  assumes "error_of self e = []"
  shows "(length (rhs_tokens e) = 1 \<and> operand_ok (rhs_tokens e ! 0) \<and>
          instructions_of self e = [lhs_variable e @ '' <- '' @ rhs_tokens e ! 0]) \<or>
         (3 \<le> length (rhs_tokens e) \<and> odd (length (rhs_tokens e)) \<and>
          (\<forall>j<length (rhs_tokens e). token_ok (rhs_tokens e) j) \<and>
          instructions_of self e =
            map (emitted (rhs_tokens e)) [0..<length (rhs_tokens e)]
              @ [lhs_variable e @ '' <- '' @ register_name (length (rhs_tokens e))])"
proof (cases e self rule: convert_to_rtl_cases)
  case (invalid msg)
  with assms show ?thesis by (simp add: error_of_def)
next
  case single_ok
  then show ?thesis by (simp add: instructions_of_def)
next
  case single_bad
  with assms show ?thesis by (simp add: error_of_def)
next
  case bad0
  with assms show ?thesis by (simp add: error_of_def)
next
  case (stop k msg self')
  with assms loop_error_not_Nil[of "rhs_tokens e" k msg] show ?thesis
    by (simp add: error_of_def)
next
  case (finished self')
  from finished(3) have "odd (length (rhs_tokens e))" by (simp add: loop_inv_def)
  with finished(2) have "3 \<le> length (rhs_tokens e)"
    by (cases "length (rhs_tokens e) = 2") auto
  with finished \<open>odd (length (rhs_tokens e))\<close> show ?thesis
    by (simp add: instructions_of_def)
qed

section \<open>The tokens of findall\<close>

lemma takeWhile_all: "list_all P (takeWhile P xs)"
  by (induction xs) auto

lemma match_token_shape: "match_token s \<noteq> [] \<Longrightarrow> token_shape (match_token s)"
proof (cases s)
  case Nil
  then show "match_token s \<noteq> [] \<Longrightarrow> token_shape (match_token s)" by simp
next
  case (Cons c cs)
  assume ne: "match_token s \<noteq> []"
  show "token_shape (match_token s)"
  proof (cases "re_digit c")
    case True
    with Cons show ?thesis
      by (simp add: match_token_def token_shape_def takeWhile_all)
  next
    case nd: False
    show ?thesis
    proof (cases "re_word c")
      case True
      with nd Cons show ?thesis
        by (simp add: match_token_def token_shape_def takeWhile_all)
    next
      case False
      with nd Cons ne show ?thesis
        by (auto simp: match_token_def token_shape_def split: if_splits)
    qed
  qed
qed

lemma findall_shape: "t \<in> set (findall s) \<Longrightarrow> token_shape t"
proof (induction s rule: findall.induct)
  case (1 s)
  show ?case
  proof (cases "s = []")
    case True
    with "1.prems" show ?thesis by (simp add: findall.simps)
  next
    case ne: False
    show ?thesis
    proof (cases "match_token s = []")
      case True
      with ne "1.prems" have "t \<in> set (findall (tl s))"
        by (simp add: findall.simps[of s])
      with "1.IH"(1)[OF ne True] show ?thesis .
    next
      case False
      with ne "1.prems" have "t = match_token s \<or> t \<in> set (findall (drop (length (match_token s)) s))"
        by (simp add: findall.simps[of s])
      with "1.IH"(2)[OF ne False] match_token_shape[OF False] show ?thesis by blast
    qed
  qed
qed

lemma token_shape_kept: "token_shape t \<Longrightarrow> c \<in> set t \<Longrightarrow> kept c"
  by (cases t) (auto simp: token_shape_def kept_def list_all_iff dest: digit_word)

lemma kept_not_blank: "kept c \<Longrightarrow> c \<noteq> CHR '' ''"
  using blank_class by (auto simp: kept_def)

lemma token_no_blank: "token_shape t \<Longrightarrow> CHR '' '' \<notin> set t"
  using token_shape_kept kept_not_blank by blast

lemma rhs_tokens_shape: "t \<in> set (rhs_tokens e) \<Longrightarrow> token_shape t"
  by (simp add: rhs_tokens_def parse_expression_def findall_shape)

lemma filter_kept_match:
  assumes "s \<noteq> []" "match_token s \<noteq> []"
  shows "filter kept s = match_token s @ filter kept (drop (length (match_token s)) s)"
proof -
  have "s = match_token s @ drop (length (match_token s)) s"
    by (metis append_take_drop_id match_token_prefix)
  then have "filter kept s = filter kept (match_token s) @ filter kept (drop (length (match_token s)) s)"
    by (metis filter_append)
  moreover have "filter kept (match_token s) = match_token s"
    using token_shape_kept[OF match_token_shape[OF assms(2)]] by (simp add: filter_id_conv)
  ultimately show ?thesis by simp
qed

lemma concat_findall: "concat (findall s) = filter kept s"
proof (induction s rule: findall.induct)
  case (1 s)
  show ?case
  proof (cases "s = []")
    case True
    then show ?thesis by (simp add: findall.simps)
  next
    case ne: False
    show ?thesis
    proof (cases "match_token s = []")
      case True
      with ne have "\<not> kept (hd s)" by (simp add: match_token_empty_iff kept_def)
      with ne have "filter kept s = filter kept (tl s)" by (cases s) auto
      with "1.IH"(1)[OF ne True] ne True show ?thesis by (simp add: findall.simps[of s])
    next
      case False
      with "1.IH"(2)[OF ne False] filter_kept_match[OF ne False] ne show ?thesis
        by (simp add: findall.simps[of s])
    qed
  qed
qed

section \<open>Decimal numbers and register names\<close>

lemma digit_char_of: "(k::nat) < 10 \<Longrightarrow> re_digit (char_of (48 + k))"
  by (simp add: re_digit_def cp_def)

lemma str_nat_digits: "list_all re_digit (str_nat n)"
proof (induction n rule: str_nat.induct)
  case (1 n)
  show ?case
  proof (cases "n < 10")
    case True
    then show ?thesis by (simp add: str_nat.simps[of n] digit_char_of)
  next
    case False
    with "1.IH" show ?thesis by (simp add: str_nat.simps[of n] digit_char_of)
  qed
qed

lemma str_nat_not_Nil [simp]: "str_nat n \<noteq> []"
  by (simp add: str_nat.simps[of n])

lemma digit_char_inj:
  "(a::nat) < 10 \<Longrightarrow> (b::nat) < 10 \<Longrightarrow> char_of (48 + a) = char_of (48 + b) \<Longrightarrow> a = b"
proof -
  assume a: "a < 10" and b: "b < 10" and eq: "char_of (48 + a) = char_of (48 + b)"
  from eq have "(of_char (char_of (48 + a)) :: nat) = of_char (char_of (48 + b))" by simp
  with a b show "a = b" by simp
qed

lemma str_nat_inj: "str_nat m = str_nat n \<Longrightarrow> m = n"
proof (induction m arbitrary: n rule: str_nat.induct)
  case (1 m)
  show ?case
  proof (cases "m < 10")
    case m: True
    show ?thesis
    proof (cases "n < 10")
      case True
      with m "1.prems" show ?thesis
        by (simp add: str_nat.simps[of m] str_nat.simps[of n] digit_char_inj)
    next
      case False
      with m "1.prems" show ?thesis
        by (simp add: str_nat.simps[of m] str_nat.simps[of n] Cons_eq_append_conv)
    qed
  next
    case m: False
    show ?thesis
    proof (cases "n < 10")
      case True
      with m "1.prems" show ?thesis
        by (simp add: str_nat.simps[of m] str_nat.simps[of n] append_eq_Cons_conv)
    next
      case False
      with m "1.prems" have eq: "str_nat (m div 10) = str_nat (n div 10)"
        and c: "char_of (48 + m mod 10) = char_of (48 + n mod 10)"
        by (simp_all add: str_nat.simps[of m] str_nat.simps[of n])
      from "1.IH"[OF m eq] have "m div 10 = n div 10" .
      moreover from c have "m mod 10 = n mod 10"
        by (intro digit_char_inj) simp_all
      ultimately show ?thesis by (metis div_mult_mod_eq)
    qed
  qed
qed

lemma digit_not_blank: "re_digit c \<Longrightarrow> c \<noteq> CHR '' ''"
  by (auto simp: re_digit_def cp_def)

lemma register_name_no_blank: "CHR '' '' \<notin> set (register_name k)"
  using str_nat_digits[of k] by (auto simp: register_name_def list_all_iff dest: digit_not_blank)

lemma register_name_inj: "register_name m = register_name n \<Longrightarrow> m = n"
  by (simp add: register_name_def str_nat_inj)

lemma is_register_name_register_name: "is_register_name (register_name k)"
  by (simp add: is_register_name_def register_name_def str_nat_digits)

lemma word_not_int_space: "re_word c \<Longrightarrow> \<not> int_space c"
  by (auto simp: re_word_def alpha_char_def re_digit_def int_space_def)

lemma word_not_sign: "re_word c \<Longrightarrow> c \<noteq> CHR ''+'' \<and> c \<noteq> CHR ''-''"
  by (auto simp: re_word_def alpha_char_def re_digit_def cp_def)

lemma digit_groups_hd: "digit_groups s \<Longrightarrow> re_digit (hd s)"
  by (induction s rule: digit_groups.induct) auto

lemma int_strip_id:
  assumes "s \<noteq> []" "\<not> int_space (hd s)" "\<not> int_space (last s)"
  shows "rev (dropWhile int_space (rev (dropWhile int_space s))) = s"
proof -
  from assms(1,2) have "dropWhile int_space s = s" by (cases s) auto
  moreover from assms(1,3) have "dropWhile int_space (rev s) = rev s"
    by (cases "rev s") (auto simp: last_rev[symmetric] simp del: last_rev)
  ultimately show ?thesis by simp
qed

lemma word_not_number:
  assumes "s \<noteq> []" "re_word (hd s)" "\<not> re_digit (hd s)" "re_word (last s)"
  shows "\<not> is_number s"
proof
  assume "is_number s"
  then have "digit_groups (drop_sign s)"
    using int_strip_id[OF assms(1)] assms(2,4) word_not_int_space
    by (simp add: is_number_def int_parses_def)
  moreover from assms(1,2) have "drop_sign s = s"
    using word_not_sign[of "hd s"] by (cases s) (auto simp: drop_sign_def)
  ultimately show False using digit_groups_hd assms(3) by auto
qed

lemma register_name_not_operand:
  assumes "is_register_name w"
  shows "\<not> operand_ok w"
proof -
  from assms obtain ds where w: "w = CHR ''R'' # ds" "ds \<noteq> []" "list_all re_digit ds"
    by (cases w) (auto simp: is_register_name_def)
  then have "re_digit (last ds)" by (simp add: list_all_iff)
  with w have "\<not> is_number w"
    by (intro word_not_number) (auto simp: re_word_def alpha_char_def re_digit_def cp_def)
  moreover from w have "\<not> py_isalpha w"
    by (cases ds) (auto simp: py_isalpha_def dest: digit_not_alpha)
  ultimately show ?thesis by (simp add: operand_ok_def)
qed

lemma register_name_not_operator: "is_register_name w \<Longrightarrow> \<not> is_operator w"
  by (auto simp: is_register_name_def is_operator_def)

section \<open>Reading an instruction\<close>

lemma py_split_not_Nil [simp]: "py_split sep s \<noteq> []"
  by (induction s) (auto split: list.splits)

lemma py_split_no_sep: "sep \<notin> set a \<Longrightarrow> py_split sep a = [a]"
  by (induction a) auto

lemma py_split_append: "sep \<notin> set a \<Longrightarrow> py_split sep (a @ sep # b) = a # py_split sep b"
  by (induction a) auto

lemma py_split_Cons_other:
  "c \<noteq> sep \<Longrightarrow> py_split sep (c # cs) = (c # hd (py_split sep cs)) # tl (py_split sep cs)"
  by (cases "py_split sep cs") auto

lemma dest_of_blank: "CHR '' '' \<notin> set a \<Longrightarrow> dest_of (a @ CHR '' '' # b) = a"
  by (auto simp: dest_of_def takeWhile_tail)

lemma sources_arrow:
  assumes "CHR '' '' \<notin> set a"
  shows "sources (a @ CHR '' '' # CHR ''<'' # CHR ''-'' # CHR '' '' # b) = py_split (CHR '' '') b"
proof -
  have "py_split (CHR '' '') (CHR ''<'' # CHR ''-'' # CHR '' '' # b) = ''<-'' # py_split (CHR '' '') b"
    by (simp add: py_split_Cons_other)
  with assms show ?thesis
    by (simp add: sources_def py_split_append)
qed

lemma dest_of_emitted: "dest_of (emitted tokens m) = register_name (m + 1)"
  using register_name_no_blank by (simp add: emitted_def dest_of_blank)

lemma sources_load:
  "CHR '' '' \<notin> set a \<Longrightarrow> CHR '' '' \<notin> set t \<Longrightarrow>
   sources (a @ CHR '' '' # CHR ''<'' # CHR ''-'' # CHR '' '' # t) = [t]"
  by (simp add: sources_arrow py_split_no_sep)

lemma sources_combine:
  assumes "CHR '' '' \<notin> set a" "CHR '' '' \<notin> set x" "CHR '' '' \<notin> set p" "CHR '' '' \<notin> set y"
  shows "sources (a @ CHR '' '' # CHR ''<'' # CHR ''-'' # CHR '' '' # x @ CHR '' '' # p @ CHR '' '' # y)
           = [x, p, y]"
  using assms by (simp add: sources_arrow py_split_append py_split_no_sep)

section \<open>Successful translations\<close>

lemma success_valid: "error_of self e = [] \<Longrightarrow> valid_split e"
proof (cases e self rule: convert_to_rtl_cases)
  case (invalid msg)
  assume "error_of self e = []"
  with invalid show ?thesis by (simp add: error_of_def)
qed

lemma ident_char_not_blank: "ident_char c \<Longrightarrow> c \<noteq> CHR '' ''"
  by (auto simp: ident_char_def ident_start_def re_digit_def cp_def)

lemma identifier_no_blank:
  assumes "is_identifier v"
  shows "CHR '' '' \<notin> set v"
proof -
  from assms obtain c cs where v: "v = c # cs" "ident_start c" "list_all ident_char cs"
    by (cases v) (auto simp: is_identifier_def)
  then have "\<forall>x\<in>set v. ident_char x"
    by (auto simp: list_all_iff ident_char_def)
  then show ?thesis using ident_char_not_blank by blast
qed

lemma variable_no_blank:
  assumes "match_variable v"
  shows "CHR '' '' \<notin> set v"
proof (cases "is_identifier v")
  case True
  then show ?thesis by (rule identifier_no_blank)
next
  case False
  with assms have v: "v \<noteq> []" "last v = CHR 0x0A" "is_identifier (butlast v)"
    by (simp_all add: match_variable_def)
  then have "v = butlast v @ [CHR 0x0A]" by (metis append_butlast_last_id)
  then have "set v = set (butlast v) \<union> {CHR 0x0A}" by (metis Un_insert_right list.set(1,2) set_append sup_bot.right_neutral)
  with identifier_no_blank[OF v(3)] show ?thesis by simp
qed

lemma lhs_no_blank: "valid_split e \<Longrightarrow> CHR '' '' \<notin> set (lhs_variable e)"
  by (simp add: valid_split_def variable_no_blank)

lemma reset_any: "reset self = reset other"
  by (cases self, cases other) (simp add: reset_def)

lemma convert_to_rtl_reset: "convert_to_rtl self e = convert_to_rtl other e"
  by (simp add: convert_to_rtl_def reset_any[of self other])

lemma map_register_name_upt:
  "map register_name [1..<Suc k] = map (\<lambda>m. register_name (m + 1)) [0..<k]"
proof -
  have "[1..<Suc k] = map Suc [0..<k]" by (simp add: map_Suc_upt)
  then show ?thesis by (simp add: comp_def)
qed

lemma loop_inv_dests:
  assumes "loop_inv tokens k self"
  shows "map dest_of (rtl_instructions self) = map register_name [1..<register_counter self]"
proof -
  from assms have c: "register_counter self = Suc k"
    and r: "rtl_instructions self = map (emitted tokens) [0..<k]"
    by (simp_all add: loop_inv_def)
  have "map dest_of (map (emitted tokens) [0..<k]) = map (\<lambda>m. register_name (m + 1)) [0..<k]"
    by (simp add: dest_of_emitted)
  then show ?thesis
    by (simp only: c r map_register_name_upt)
qed

section \<open>Tokens with an underscore\<close>







section \<open>The first alternative against the longest prefix\<close>






section \<open>The claims\<close>

text \<open>
  C1. Translating \<open>x = 6 + 9\<close> returns, whatever the object held before the call, the four
  instructions \<open>R1 <- 6\<close>, \<open>R2 <- 9\<close>, \<open>R3 <- R1 + R2\<close>, \<open>x <- R3\<close> in this
  order, with the empty error string.
\<close>

theorem C1_x_6_plus_9:
  "fst (convert_to_rtl self ''x = 6 + 9'') =
     ([''R1 <- 6'', ''R2 <- 9'', ''R3 <- R1 + R2'', ''x <- R3''], '''')"
  by (simp add: rtl_eval)

text \<open>
  C2. When the translation succeeds (the error string is empty), the right-hand side has
  at least one operand; with one operand the list has exactly one instruction, and with
  \<open>n \<ge> 2\<close> operands it has exactly \<open>2 * (n - 1) + 1 + 1\<close> instructions.
\<close>

theorem C2_instruction_count:
  assumes "error_of self e = []"
  shows "1 \<le> operand_count e \<and>
         (operand_count e = 1 \<longrightarrow> length (instructions_of self e) = 1) \<and>
         (2 \<le> operand_count e \<longrightarrow>
            length (instructions_of self e) = 2 * (operand_count e - 1) + 1 + 1)"
proof -
  from success_shape[OF assms] show ?thesis
  proof
    assume a: "length (rhs_tokens e) = 1 \<and> operand_ok (rhs_tokens e ! 0) \<and>
          instructions_of self e = [lhs_variable e @ '' <- '' @ rhs_tokens e ! 0]"
    then obtain t where t: "rhs_tokens e = [t]"
      by (cases "rhs_tokens e") auto
    with a have "operand_count e = 1" by (simp add: operand_count_def)
    with a show ?thesis by simp
  next
    assume b: "3 \<le> length (rhs_tokens e) \<and> odd (length (rhs_tokens e)) \<and>
          (\<forall>j<length (rhs_tokens e). token_ok (rhs_tokens e) j) \<and>
          instructions_of self e =
            map (emitted (rhs_tokens e)) [0..<length (rhs_tokens e)]
              @ [lhs_variable e @ '' <- '' @ register_name (length (rhs_tokens e))]"
    then have n: "operand_count e = (length (rhs_tokens e) + 1) div 2"
      by (simp add: operand_count_def count_operands)
    from b have len: "length (instructions_of self e) = length (rhs_tokens e) + 1" by simp
    from b have "odd (length (rhs_tokens e))" "3 \<le> length (rhs_tokens e)" by simp_all
    with n len show ?thesis by presburger
  qed
qed

theorem C2_instruction_count_witness:
  "error_of RTLConverter_init ''result = a + b - 3'' = [] \<and>
   operand_count ''result = a + b - 3'' = 3 \<and>
   length (instructions_of RTLConverter_init ''result = a + b - 3'') = 6"
  using C2_instruction_count[of RTLConverter_init "''result = a + b - 3''"]
  by (simp add: error_of_def instructions_of_def operand_count_def rhs_tokens_def
      RTLConverter_init_def rtl_eval)

text \<open>
  C3, as stated: for every successful translation the number of instructions is odd. It
  fails for \<open>x = 6 + 9\<close>, which succeeds with four instructions.
\<close>

theorem C3_counterexample:
  "error_of RTLConverter_init ''x = 6 + 9'' = [] \<and>
   \<not> odd (length (instructions_of RTLConverter_init ''x = 6 + 9''))"
  by (simp add: error_of_def instructions_of_def RTLConverter_init_def rtl_eval)

text \<open>
  C3, amended: a successful translation returns one instruction when the right-hand side
  is a single token; otherwise the right-hand side has an odd number of tokens, at least
  three, and the list has one instruction more than there are tokens, so an even number,
  at least four.
\<close>

theorem C3_instruction_parity:
  assumes "error_of self e = []"
  shows "(length (rhs_tokens e) = 1 \<and> length (instructions_of self e) = 1) \<or>
         (3 \<le> length (rhs_tokens e) \<and> odd (length (rhs_tokens e)) \<and>
          length (instructions_of self e) = length (rhs_tokens e) + 1 \<and>
          even (length (instructions_of self e)))"
  using success_shape[OF assms] by auto

theorem C3_instruction_parity_witness:
  "error_of RTLConverter_init ''x = 6 + 9'' = [] \<and>
   length (rhs_tokens ''x = 6 + 9'') = 3 \<and>
   length (instructions_of RTLConverter_init ''x = 6 + 9'') = 4"
  using C3_instruction_parity[of RTLConverter_init "''x = 6 + 9''"]
  by (simp add: error_of_def instructions_of_def rhs_tokens_def RTLConverter_init_def rtl_eval)

text \<open>
  C5. Every call returns exactly one populated output: either the instruction list is
  empty and the error string is not, or the list is not empty and the error string is.
  For \<open>x = 1 +\<close> the object holds the instruction written before the failure was found,
  and the returned list is empty all the same.
\<close>

theorem C5_exactly_one_output:
  "((instructions_of self e = [] \<and> error_of self e \<noteq> []) \<or>
    (instructions_of self e \<noteq> [] \<and> error_of self e = [])) \<and>
   instructions_of self ''x = 1 +'' = [] \<and>
   error_of self ''x = 1 +'' = ''Error: Missing operand after operator'' \<and>
   rtl_instructions (object_after self ''x = 1 +'') = [''R1 <- 1'']"
proof -
  have "(instructions_of self e = [] \<and> error_of self e \<noteq> []) \<or>
        (instructions_of self e \<noteq> [] \<and> error_of self e = [])"
  proof (cases e self rule: convert_to_rtl_cases)
    case (stop k msg self')
    with loop_error_not_Nil[of "rhs_tokens e" k msg] show ?thesis
      by (simp add: error_of_def instructions_of_def)
  qed (simp_all add: error_of_def instructions_of_def)
  moreover have "instructions_of self ''x = 1 +'' = []"
    by (simp add: instructions_of_def rtl_eval)
  moreover have "error_of self ''x = 1 +'' = ''Error: Missing operand after operator''"
    by (simp add: error_of_def rtl_eval)
  moreover have "rtl_instructions (object_after self ''x = 1 +'') = [''R1 <- 1'']"
    by (simp add: object_after_def rtl_eval)
  ultimately show ?thesis by blast
qed

text \<open>
  C7. When the translation succeeds, the destination of the last instruction of the
  returned list is the left-hand-side variable, the trimmed text before \<open>=\<close>.
\<close>

theorem C7_last_destination:
  assumes "error_of self e = []"
  shows "dest_of (last (instructions_of self e)) = lhs_variable e"
proof -
  from assms have "CHR '' '' \<notin> set (lhs_variable e)"
    by (intro lhs_no_blank success_valid)
  with success_shape[OF assms] show ?thesis
    by (auto simp: dest_of_blank)
qed

theorem C7_last_destination_witness:
  "error_of RTLConverter_init ''result = a + b - 3'' = [] \<and>
   last (instructions_of RTLConverter_init ''result = a + b - 3'') = ''result <- R5'' \<and>
   dest_of (last (instructions_of RTLConverter_init ''result = a + b - 3'')) = ''result'' \<and>
   lhs_variable ''result = a + b - 3'' = ''result''"
  using C7_last_destination[of RTLConverter_init "''result = a + b - 3''"]
  by (simp add: error_of_def instructions_of_def lhs_variable_def dest_of_def
      RTLConverter_init_def rtl_eval)

text \<open>
  C6. \<open>get_next_register\<close> returns the name of the counter's number and increments the
  counter, and \<open>reset\<close> sets the counter to 1. Every register that a call allocates is the
  destination of the instruction written next, so with \<open>c\<close> the counter after the call, the
  registers allocated during the call are the destinations of the first \<open>c - 1\<close>
  instructions the object holds: they are \<open>R1, ..., R(c-1)\<close> in this order, without a
  repetition; at most one instruction follows them, the final store, which allocates
  nothing. The result of a call and the object after it do not depend on what the object
  held before the call.
\<close>

theorem C6_register_numbering:
  "fst (get_next_register self) = register_name (register_counter self) \<and>
   register_counter (snd (get_next_register self)) = register_counter self + 1 \<and>
   register_counter (reset self) = 1 \<and>
   convert_to_rtl self e = convert_to_rtl other e \<and>
   map dest_of (take (register_counter (object_after self e) - 1)
                  (rtl_instructions (object_after self e)))
     = map register_name [1..<register_counter (object_after self e)] \<and>
   register_counter (object_after self e) - 1 \<le> length (rtl_instructions (object_after self e)) \<and>
   length (rtl_instructions (object_after self e)) \<le> register_counter (object_after self e) \<and>
   distinct (map register_name [1..<register_counter (object_after self e)])"
proof -
  have alloc: "map dest_of (take (register_counter (object_after self e) - 1)
                  (rtl_instructions (object_after self e)))
     = map register_name [1..<register_counter (object_after self e)] \<and>
   register_counter (object_after self e) - 1 \<le> length (rtl_instructions (object_after self e)) \<and>
   length (rtl_instructions (object_after self e)) \<le> register_counter (object_after self e)"
  proof (cases e self rule: convert_to_rtl_cases)
    case (stop k msg self')
    from stop(3) have "register_counter self' = k + 1" "length (rtl_instructions self') = k"
      by (simp_all add: loop_inv_def)
    with stop(7) loop_inv_dests[OF stop(3)] show ?thesis
      by (simp add: object_after_def)
  next
    case (finished self')
    from finished(3) have "register_counter self' = length (rhs_tokens e) + 1"
      "length (rtl_instructions self') = length (rhs_tokens e)"
      by (simp_all add: loop_inv_def)
    with finished(5) loop_inv_dests[OF finished(3)] show ?thesis
      by (simp add: object_after_def)
  qed (simp_all add: object_after_def)
  have "inj_on register_name (set [1..<register_counter (object_after self e)])"
    by (rule inj_onI) (rule register_name_inj)
  then have "distinct (map register_name [1..<register_counter (object_after self e)])"
    by (simp add: distinct_map)
  with alloc convert_to_rtl_reset[of self e other] show ?thesis by simp
qed

text \<open>
  C10. When the translation succeeds, every register name among the sources of an
  instruction is the destination of an instruction that stands earlier in the list.
\<close>

theorem C10_sources_written_before:
  assumes ok: "error_of self e = []"
    and i: "i < length (instructions_of self e)"
    and r: "r \<in> set (sources (instructions_of self e ! i))"
    and reg: "is_register_name r"
  shows "\<exists>j<i. dest_of (instructions_of self e ! j) = r"
proof -
  let ?ts = "rhs_tokens e" and ?v = "lhs_variable e"
  have v: "CHR '' '' \<notin> set ?v"
    using ok by (intro lhs_no_blank success_valid)
  have tok: "CHR '' '' \<notin> set (?ts ! j)" if "j < length ?ts" for j
    using that token_no_blank[OF rhs_tokens_shape[of "?ts ! j" e]] by simp
  from success_shape[OF ok] show ?thesis
  proof
    assume a: "length ?ts = 1 \<and> operand_ok (?ts ! 0) \<and>
          instructions_of self e = [?v @ '' <- '' @ ?ts ! 0]"
    with i have "i = 0" by simp
    with a r v tok[of 0] have "r = ?ts ! 0" by (simp add: sources_load)
    with a reg register_name_not_operand show ?thesis by blast
  next
    assume b: "3 \<le> length ?ts \<and> odd (length ?ts) \<and>
          (\<forall>j<length ?ts. token_ok ?ts j) \<and>
          instructions_of self e =
            map (emitted ?ts) [0..<length ?ts] @ [?v @ '' <- '' @ register_name (length ?ts)]"
    then have ins: "instructions_of self e =
            map (emitted ?ts) [0..<length ?ts] @ [?v @ '' <- '' @ register_name (length ?ts)]"
      and oddL: "odd (length ?ts)" and L3: "3 \<le> length ?ts"
      and tk: "\<And>j. j < length ?ts \<Longrightarrow> token_ok ?ts j"
      by simp_all
    have nth: "instructions_of self e ! j = emitted ?ts j" if "j < length ?ts" for j
      using that by (simp add: ins nth_append)
    have dst: "dest_of (instructions_of self e ! j) = register_name (j + 1)" if "j < length ?ts" for j
      using that by (simp add: nth dest_of_emitted)
    from i ins have iL: "i \<le> length ?ts" by simp
    show ?thesis
    proof (cases "i = length ?ts")
      case True
      then have "instructions_of self e ! i = ?v @ '' <- '' @ register_name (length ?ts)"
        by (simp add: ins nth_append)
      with r v register_name_no_blank have "r = register_name (length ?ts)"
        by (simp add: sources_load)
      moreover from L3 have lt: "length ?ts - 1 < length ?ts"
        and eq: "length ?ts - 1 + 1 = length ?ts" by simp_all
      ultimately have "dest_of (instructions_of self e ! (length ?ts - 1)) = r"
        using dst[OF lt] by (simp only: eq)
      with True lt show ?thesis by blast
    next
      case False
      with iL have iltL: "i < length ?ts" by simp
      show ?thesis
      proof (cases "i = 0")
        case True
        with iltL r tok[of 0] register_name_no_blank have "r = ?ts ! 0"
          by (simp add: nth emitted_def sources_load)
        moreover from tk[of 0] iltL True have "operand_ok (?ts ! 0)" by (simp add: token_ok_def)
        ultimately show ?thesis using reg register_name_not_operand by blast
      next
        case i0: False
        show ?thesis
        proof (cases "odd i")
          case True
          with iltL oddL have i1: "i + 1 < length ?ts"
            by (metis Suc_eq_plus1 Suc_lessI even_Suc)
          with True i0 iltL r tok[of "i + 1"] register_name_no_blank have "r = ?ts ! (i + 1)"
            by (simp add: nth emitted_def sources_load)
          moreover from tk[OF i1] True have "operand_ok (?ts ! (i + 1))" by (simp add: token_ok_def)
          ultimately show ?thesis using reg register_name_not_operand by blast
        next
          case False
          with i0 have i2: "2 \<le> i" by (cases "i = 1") auto
          from False i0 iltL r tok[of "i - 1"] register_name_no_blank
          have "r \<in> {register_name (i - 1), ?ts ! (i - 1), register_name i}"
            by (simp add: nth emitted_def sources_combine)
          moreover from tk[of "i - 1"] False i0 iltL have "is_operator (?ts ! (i - 1))"
            by (simp add: token_ok_def)
          then have "r \<noteq> ?ts ! (i - 1)" using reg register_name_not_operator by blast
          ultimately consider "r = register_name (i - 1)" | "r = register_name i" by blast
          then show ?thesis
          proof cases
            case 1
            from i2 iltL have lt: "i - 2 < length ?ts" and eq: "i - 2 + 1 = i - 1" by simp_all
            from dst[OF lt] 1 have "dest_of (instructions_of self e ! (i - 2)) = r"
              by (simp only: eq)
            moreover from i2 have "i - 2 < i" by simp
            ultimately show ?thesis by blast
          next
            case 2
            from i2 iltL have lt: "i - 1 < length ?ts" and eq: "i - 1 + 1 = i" by simp_all
            from dst[OF lt] 2 have "dest_of (instructions_of self e ! (i - 1)) = r"
              by (simp only: eq)
            moreover from i2 have "i - 1 < i" by simp
            ultimately show ?thesis by blast
          qed
        qed
      qed
    qed
  qed
qed

theorem C10_sources_written_before_witness:
  "error_of RTLConverter_init ''x = 6 + 9'' = [] \<and>
   sources (instructions_of RTLConverter_init ''x = 6 + 9'' ! 2) = [''R1'', ''+'', ''R2''] \<and>
   is_register_name ''R1'' \<and>
   (\<exists>j<2. dest_of (instructions_of RTLConverter_init ''x = 6 + 9'' ! j) = ''R1'')"
proof -
  have e: "error_of RTLConverter_init ''x = 6 + 9'' = []"
    by (simp add: error_of_def RTLConverter_init_def rtl_eval)
  have ins: "instructions_of RTLConverter_init ''x = 6 + 9'' =
      [''R1 <- 6'', ''R2 <- 9'', ''R3 <- R1 + R2'', ''x <- R3'']"
    by (simp add: instructions_of_def RTLConverter_init_def rtl_eval)
  have s: "sources (instructions_of RTLConverter_init ''x = 6 + 9'' ! 2) = [''R1'', ''+'', ''R2'']"
    by (simp add: ins sources_def)
  have reg: "is_register_name ''R1''"
    by (simp add: is_register_name_def re_digit_def cp_def)
  have "\<exists>j<2. dest_of (instructions_of RTLConverter_init ''x = 6 + 9'' ! j) = ''R1''"
    by (rule C10_sources_written_before[OF e, of 2 "''R1''"]) (simp_all add: s reg, simp add: ins)
  with e s reg show ?thesis by simp
qed







end
